theory Spec2Isabelle
  imports Main "HOL-Library.Word"
begin

unbundle bit_operations_syntax

section \<open>Data model of logger.go\<close>

text \<open>
  \<^verbatim>\<open>type level int\<close> with the constants \<^verbatim>\<open>Debug, Info, Warn, Error = 0, 1, 2, 3\<close>.
  A level is any integer (an untyped constant converts to \<^verbatim>\<open>level\<close>), and the
  methods only compare levels, so no wrap-around is involved.
\<close>

type_synonym level = int

definition Debug :: level where "Debug = 0"
definition Info :: level where "Info = 1"
definition Warn :: level where "Warn = 2"
definition Error :: level where "Error = 3"

text \<open>\<^verbatim>\<open>type color string\<close>: an escape sequence. \<^verbatim>\<open>\x1b\<close> is the byte 27.\<close>

type_synonym color = string

definition NoColor :: color where "NoColor = CHR 0x1B # ''[0m''"
definition Cyan :: color where "Cyan = CHR 0x1B # ''[36m''"


text \<open>
  An \<^verbatim>\<open>io.Writer\<close> is identified by a name; \<^verbatim>\<open>os.Stdout\<close> is one of them. What a
  writer has received is part of the state (see \<open>state\<close> below). Writers are not nil,
  and a writer keeps all that is handed to it.
\<close>

datatype writer = Stdout | Sink nat

text \<open>\<^verbatim>\<open>type logger struct { tag string; color color; level level; writer io.Writer }\<close>\<close>

record logger =
  tag :: string
  color :: color
  level :: level
  writer :: writer



section \<open>Tag hashing\<close>




section \<open>Construction\<close>









section \<open>The environment of a logging call\<close>

text \<open>
  A program counter is either inside one of this package's functions (named by the
  function) or somewhere else in the program.
\<close>

datatype pc = Internal string | External nat

text \<open>
  \<^verbatim>\<open>time.Now().UTC()\<close> as its calendar fields, and \<^verbatim>\<open>Format(time.RFC3339)\<close>, the layout
  \<^verbatim>\<open>2006-01-02T15:04:05Z07:00\<close>: zero-padded decimal fields, and \<^verbatim>\<open>Z\<close> for the zone
  of a UTC time.
\<close>

record civil =
  year :: nat
  month :: nat
  day :: nat
  hour :: nat
  minute :: nat
  second :: nat

definition digit :: "nat \<Rightarrow> char" where
  "digit n = ''0123456789'' ! n"

fun dec :: "nat \<Rightarrow> string" where
  "dec n = (if n < 10 then [digit n] else dec (n div 10) @ [digit (n mod 10)])"

definition zero_pad :: "nat \<Rightarrow> nat \<Rightarrow> string" where
  "zero_pad w n = replicate (w - length (dec n)) CHR ''0'' @ dec n"

definition Format_RFC3339 :: "civil \<Rightarrow> string" where
  "Format_RFC3339 t =
     zero_pad 4 (year t) @ ''-'' @ zero_pad 2 (month t) @ ''-'' @ zero_pad 2 (day t) @ ''T'' @
     zero_pad 2 (hour t) @ '':'' @ zero_pad 2 (minute t) @ '':'' @ zero_pad 2 (second t) @ ''Z''"

text \<open>
  What a call reads from outside the logger: \<^verbatim>\<open>fmt.Sprint\<close> and \<^verbatim>\<open>fmt.Sprintf\<close> on the
  caller's operands (of any type \<open>'a\<close>, Go's \<^verbatim>\<open>interface{}\<close>), the clock, the call
  stack of the function that invokes the public method (innermost frame first), and the
  runtime's table from program counters to function names.
\<close>

record 'a env =
  Sprint :: "'a list \<Rightarrow> string"
  Sprintf :: "string \<Rightarrow> 'a list \<Rightarrow> string"
  Now_UTC :: civil
  stack :: "pc list"
  FuncForPC :: "pc \<Rightarrow> string option"

text \<open>Entering a function pushes its frame.\<close>

definition enter :: "string \<Rightarrow> 'a env \<Rightarrow> 'a env" where
  "enter f e = e\<lparr>stack := Internal f # stack e\<rparr>"

text \<open>
  \<^verbatim>\<open>runtime.Caller(skip)\<close>, called in a function whose own frame is the head of the
  stack: the program counter \<open>skip\<close> frames up, or \<^verbatim>\<open>ok = false\<close>.
\<close>

definition runtime_Caller :: "'a env \<Rightarrow> nat \<Rightarrow> pc option" where
  "runtime_Caller e skip = (if skip < length (stack e) then Some (stack e ! skip) else None)"

section \<open>The pattern and its matcher\<close>

text \<open>
  \<^verbatim>\<open>regexp.MustCompile(`\(.*\)\.\w*.*?`)\<close>. The pattern is a sequence of single
  characters and of repetitions of a character class, greedy (\<^verbatim>\<open>*\<close>) or lazy
  (\<^verbatim>\<open>*?\<close>). \<^verbatim>\<open>.\<close> is any character but the newline, \<^verbatim>\<open>\w\<close> is
  \<^verbatim>\<open>[0-9A-Za-z_]\<close>. All delimiters are ASCII, so matching bytes and matching
  characters agree.
\<close>

datatype char_class = Lit char | AnyChar | WordChar

definition is_word_char :: "char \<Rightarrow> bool" where
  "is_word_char c =
     (let n = (of_char c :: nat)
      in (48 \<le> n \<and> n \<le> 57) \<or> (65 \<le> n \<and> n \<le> 90) \<or> n = 95 \<or> (97 \<le> n \<and> n \<le> 122))"

fun in_class :: "char_class \<Rightarrow> char \<Rightarrow> bool" where
  "in_class (Lit a) c = (c = a)"
| "in_class AnyChar c = (c \<noteq> CHR 0x0A)"
| "in_class WordChar c = is_word_char c"

datatype atom = One char_class | Star char_class | LazyStar char_class

type_synonym regexp = "atom list"

definition pattern :: regexp where
  "pattern = [One (Lit CHR ''(''), Star AnyChar, One (Lit CHR '')''), One (Lit CHR ''.''),
              Star WordChar, LazyStar AnyChar]"

text \<open>
  The match a backtracking search finds first at the start of \<open>s\<close>: a greedy
  repetition tries one more character before it tries the rest of the pattern, a lazy one
  tries the rest first.
\<close>

fun match_here :: "regexp \<Rightarrow> string \<Rightarrow> string option" where
  "match_here [] s = Some []"
| "match_here (One k # r) [] = None"
| "match_here (One k # r) (c # s) =
     (if in_class k c then map_option ((#) c) (match_here r s) else None)"
| "match_here (Star k # r) [] = match_here r []"
| "match_here (Star k # r) (c # s) =
     (if in_class k c then
        (case match_here (Star k # r) s of
           Some m \<Rightarrow> Some (c # m)
         | None \<Rightarrow> match_here r (c # s))
      else match_here r (c # s))"
| "match_here (LazyStar k # r) [] = match_here r []"
| "match_here (LazyStar k # r) (c # s) =
     (case match_here r (c # s) of
        Some m \<Rightarrow> Some m
      | None \<Rightarrow>
          if in_class k c then map_option ((#) c) (match_here (LazyStar k # r) s) else None)"

text \<open>
  \<^verbatim>\<open>(*Regexp).FindString\<close>: the leftmost match, and among the matches that start
  there the one the backtracking search finds first; the empty string when there is none.
\<close>

fun FindString :: "regexp \<Rightarrow> string \<Rightarrow> string" where
  "FindString re [] = (case match_here re [] of Some m \<Rightarrow> m | None \<Rightarrow> [])"
| "FindString re (c # s) =
     (case match_here re (c # s) of Some m \<Rightarrow> m | None \<Rightarrow> FindString re s)"

text \<open>
  The pattern as a set of strings, with no order of preference: \<open>matches re w\<close> says
  that the whole of \<open>w\<close> is an instance of \<open>re\<close>.
\<close>

fun matches :: "regexp \<Rightarrow> string \<Rightarrow> bool" where
  "matches [] w = (w = [])"
| "matches (One k # r) [] = False"
| "matches (One k # r) (c # w) = (in_class k c \<and> matches r w)"
| "matches (Star k # r) [] = matches r []"
| "matches (Star k # r) (c # w) =
     (matches r (c # w) \<or> (in_class k c \<and> matches (Star k # r) w))"
| "matches (LazyStar k # r) [] = matches r []"
| "matches (LazyStar k # r) (c # w) =
     (matches r (c # w) \<or> (in_class k c \<and> matches (LazyStar k # r) w))"

section \<open>Timestamp and caller\<close>

text \<open>\<^verbatim>\<open>func timestamp() string { return time.Now().UTC().Format(time.RFC3339) }\<close>\<close>

definition timestamp :: "'a env \<Rightarrow> string" where
  "timestamp e = Format_RFC3339 (Now_UTC e)"

text \<open>
  \<^verbatim>\<open>func caller() string\<close>: \<^verbatim>\<open>runtime.Caller(3)\<close>, \<^verbatim>\<open>runtime.FuncForPC(pc)\<close>,
  \<^verbatim>\<open>pattern.FindString(details.Name())\<close>. The argument is the environment of the
  function that calls \<^verbatim>\<open>caller\<close>.
\<close>

definition caller :: "'a env \<Rightarrow> string" where
  "caller e =
     (case runtime_Caller (enter ''caller'' e) 3 of
        None \<Rightarrow> ''unknown caller''
      | Some p \<Rightarrow>
          (case FuncForPC e p of
             None \<Rightarrow> ''unknown caller''
           | Some name \<Rightarrow>
               (let match = FindString pattern name
                in if match \<noteq> [] then match else name)))"

section \<open>The logging methods\<close>

text \<open>
  The state a method works on: the struct its receiver points to, and what every writer
  has received so far, one entry for each \<^verbatim>\<open>Write\<close>.
\<close>

record state =
  self :: logger
  written :: "writer \<Rightarrow> string list"

text \<open>
  \<^verbatim>\<open>fmt.Fprintf(w, ...)\<close> formats into a buffer and hands it to \<^verbatim>\<open>w.Write\<close> once; the
  source drops the returned count and error.
\<close>

definition Write :: "writer \<Rightarrow> string \<Rightarrow> state \<Rightarrow> state" where
  "Write w s st = st\<lparr>written := (written st)(w := written st w @ [s])\<rparr>"

text \<open>
  The verb \<^verbatim>\<open>%5s\<close>: the operand, padded with spaces on the left to width 5. The width
  counts characters; the labels the methods pass are ASCII, one byte for each character.
\<close>

definition pad_left :: "nat \<Rightarrow> string \<Rightarrow> string" where
  "pad_left w s = replicate (w - length s) CHR '' '' @ s"

definition format :: "'a env \<Rightarrow> 'a list \<Rightarrow> string" where
  "format e a = Sprint e a"

definition formatf :: "'a env \<Rightarrow> string \<Rightarrow> 'a list \<Rightarrow> string" where
  "formatf e f a = Sprintf e f a"

text \<open>
  \<^verbatim>\<open>func (self *logger) log(level string, s string)\<close>. The two format strings
  \<^verbatim>\<open>"[%s] [%5s] [%s] [%s] %s\n"\<close> and \<^verbatim>\<open>"[%s] [%5s] [%s] %s\n"\<close> are written out
  verb by verb; \<^verbatim>\<open>Sprintf("%s%s%s", self.color, self.tag, NoColor)\<close> is the
  concatenation of its operands.
\<close>

definition log :: "string \<Rightarrow> string \<Rightarrow> 'a env \<Rightarrow> state \<Rightarrow> state" where
  "log label s e0 st =
     (let e = enter ''log'' e0 in
      if tag (self st) \<noteq> [] then
        (let tg = color (self st) @ tag (self st) @ NoColor
         in Write (writer (self st))
              (''['' @ timestamp e @ ''] ['' @ pad_left 5 label @ ''] ['' @ tg @ ''] ['' @
               caller e @ ''] '' @ s @ [CHR 0x0A]) st)
      else
        Write (writer (self st))
          (''['' @ timestamp e @ ''] ['' @ pad_left 5 label @ ''] ['' @
           caller e @ ''] '' @ s @ [CHR 0x0A]) st)"

text \<open>
  \<^verbatim>\<open>os.Exit(code)\<close> ends the process: the call has no continuation. A method that
  returns hands the state to the code that follows it.
\<close>

datatype outcome = Returns state | Exits int state

definition os_Exit :: "int \<Rightarrow> state \<Rightarrow> outcome" where
  "os_Exit code st = Exits code st"

fun and_then :: "outcome \<Rightarrow> (state \<Rightarrow> outcome) \<Rightarrow> outcome" where
  "and_then (Returns st) k = k st"
| "and_then (Exits code st) k = Exits code st"

definition logger_Fatal :: "'a list \<Rightarrow> 'a env \<Rightarrow> state \<Rightarrow> outcome" where
  "logger_Fatal a e st = os_Exit 1 (log ''FATAL'' (format e a) (enter ''Fatal'' e) st)"

definition logger_Fatalf :: "string \<Rightarrow> 'a list \<Rightarrow> 'a env \<Rightarrow> state \<Rightarrow> outcome" where
  "logger_Fatalf f a e st = os_Exit 1 (log ''FATAL'' (formatf e f a) (enter ''Fatalf'' e) st)"

definition logger_Error :: "'a list \<Rightarrow> 'a env \<Rightarrow> state \<Rightarrow> state" where
  "logger_Error a e st =
     (if level (self st) \<le> Error then log ''ERROR'' (format e a) (enter ''Error'' e) st else st)"

definition logger_Errorf :: "string \<Rightarrow> 'a list \<Rightarrow> 'a env \<Rightarrow> state \<Rightarrow> state" where
  "logger_Errorf f a e st =
     (if level (self st) \<le> Error then log ''ERROR'' (formatf e f a) (enter ''Errorf'' e) st
      else st)"

definition logger_Warn :: "'a list \<Rightarrow> 'a env \<Rightarrow> state \<Rightarrow> state" where
  "logger_Warn a e st =
     (if level (self st) \<le> Warn then log ''WARN'' (format e a) (enter ''Warn'' e) st else st)"

definition logger_Warnf :: "string \<Rightarrow> 'a list \<Rightarrow> 'a env \<Rightarrow> state \<Rightarrow> state" where
  "logger_Warnf f a e st =
     (if level (self st) \<le> Warn then log ''WARN'' (formatf e f a) (enter ''Warnf'' e) st
      else st)"

definition logger_Info :: "'a list \<Rightarrow> 'a env \<Rightarrow> state \<Rightarrow> state" where
  "logger_Info a e st =
     (if level (self st) \<le> Info then log ''INFO'' (format e a) (enter ''Info'' e) st else st)"

definition logger_Infof :: "string \<Rightarrow> 'a list \<Rightarrow> 'a env \<Rightarrow> state \<Rightarrow> state" where
  "logger_Infof f a e st =
     (if level (self st) \<le> Info then log ''INFO'' (formatf e f a) (enter ''Infof'' e) st
      else st)"

definition logger_Debug :: "'a list \<Rightarrow> 'a env \<Rightarrow> state \<Rightarrow> state" where
  "logger_Debug a e st =
     (if level (self st) \<le> Debug then log ''DEBUG'' (format e a) (enter ''Debug'' e) st else st)"

definition logger_Debugf :: "string \<Rightarrow> 'a list \<Rightarrow> 'a env \<Rightarrow> state \<Rightarrow> state" where
  "logger_Debugf f a e st =
     (if level (self st) \<le> Debug then log ''DEBUG'' (formatf e f a) (enter ''Debugf'' e) st
      else st)"

section \<open>Notions of the specification\<close>





text \<open>
  \<open>emits st st' ls\<close>: the state \<open>st'\<close> is \<open>st\<close> with the entries \<open>ls\<close> appended to
  what the logger's writer has received, and nothing else changed.
\<close>

definition emits :: "state \<Rightarrow> state \<Rightarrow> string list \<Rightarrow> bool" where
  "emits st st' ls \<longleftrightarrow>
     self st' = self st \<and>
     written st' = (written st)(writer (self st) := written st (writer (self st)) @ ls)"

text \<open>
  The caller field for a call made by the function whose frame is the head of the stack:
  its name, shortened by the pattern when the pattern matches, or the placeholder.
\<close>

definition resolve :: "'a env \<Rightarrow> string" where
  "resolve e =
     (case stack e of
        [] \<Rightarrow> ''unknown caller''
      | p # ps \<Rightarrow>
          (case FuncForPC e p of
             None \<Rightarrow> ''unknown caller''
           | Some name \<Rightarrow> if FindString pattern name = [] then name else FindString pattern name))"

text \<open>
  The line format of the specification:
  \<^verbatim>\<open>[<timestamp>] [<LEVEL>] [<coloredTag>] [<caller>] <message>\n\<close>, without the tag
  segment when the tag is empty. The reset sequence is \<^verbatim>\<open>\x1b[0m\<close>.
\<close>

definition entry :: "'a env \<Rightarrow> logger \<Rightarrow> string \<Rightarrow> string \<Rightarrow> string" where
  "entry e lg field msg =
     (if tag lg = [] then
        ''['' @ Format_RFC3339 (Now_UTC e) @ ''] ['' @ field @ ''] ['' @ resolve e @ ''] '' @
        msg @ [CHR 0x0A]
      else
        ''['' @ Format_RFC3339 (Now_UTC e) @ ''] ['' @ field @ ''] ['' @
        color lg @ tag lg @ [CHR 0x1B, CHR ''['', CHR ''0'', CHR ''m''] @ ''] ['' @
        resolve e @ ''] '' @ msg @ [CHR 0x0A])"

text \<open>\<open>leftmost re s n\<close>: no instance of the pattern starts in \<open>s\<close> before position \<open>n\<close>.\<close>

definition leftmost :: "regexp \<Rightarrow> string \<Rightarrow> nat \<Rightarrow> bool" where
  "leftmost re s n \<longleftrightarrow>
     (\<forall>pre m post. s = pre @ m @ post \<and> matches re m \<longrightarrow> n \<le> length pre)"


text \<open>The state a call ends in, returned or handed to the operating system at exit.\<close>

fun state_of :: "outcome \<Rightarrow> state" where
  "state_of (Returns st) = st"
| "state_of (Exits code st) = st"

text \<open>
  \<open>unchanged_logger st st'\<close>: the four fields of the logger are the same in both states,
  and every writer has received in \<open>st'\<close> what it had in \<open>st\<close>, the logger's own writer
  possibly followed by more.
\<close>

definition unchanged_logger :: "state \<Rightarrow> state \<Rightarrow> bool" where
  "unchanged_logger st st' \<longleftrightarrow>
     tag (self st') = tag (self st) \<and> color (self st') = color (self st) \<and>
     level (self st') = level (self st) \<and> writer (self st') = writer (self st) \<and>
     (\<exists>ls. written st' = (written st)(writer (self st) := written st (writer (self st)) @ ls))"

subsection \<open>A concrete call\<close>

text \<open>
  An environment and a state to run the definitions on: string operands, which
  \<^verbatim>\<open>fmt.Sprint\<close> concatenates; a format without verbs and no operands, which
  \<^verbatim>\<open>fmt.Sprintf\<close> returns as it is; the method called from \<^verbatim>\<open>main.(*Server).Run\<close>.
\<close>

definition example_env :: "string env" where
  "example_env =
     \<lparr>Sprint = concat, Sprintf = (\<lambda>f a. f),
      Now_UTC = \<lparr>year = 2024, month = 1, day = 2, hour = 15, minute = 4, second = 5\<rparr>,
      stack = [External 0],
      FuncForPC = (\<lambda>p. if p = External 0 then Some ''main.(*Server).Run'' else None)\<rparr>"

definition example_state :: "string \<Rightarrow> level \<Rightarrow> state" where
  "example_state tg l =
     \<lparr>self = \<lparr>tag = tg, color = Cyan, level = l, writer = Stdout\<rparr>, written = (\<lambda>w. [])\<rparr>"

section \<open>Hashing and construction: lemmas\<close>











section \<open>The matcher: lemmas\<close>

lemma match_here_sound:
  "match_here re s = Some m \<Longrightarrow> matches re m \<and> (\<exists>t. s = m @ t)"
proof (induction re s arbitrary: m rule: match_here.induct)
  case (1 s)
  then show ?case by simp
next
  case (2 k r)
  then show ?case by simp
next
  case (3 k r c s)
  then show ?case by (auto split: if_splits)
next
  case (4 k r)
  then show ?case by (cases m) auto
next
  case (5 k r c s)
  then show ?case by (cases m) (auto split: if_splits option.splits)
next
  case (6 k r)
  then show ?case by (cases m) auto
next
  case (7 k r c s)
  then show ?case by (cases m) (auto split: if_splits option.splits)
qed

lemma match_here_complete:
  "matches re m \<Longrightarrow> match_here re (m @ t) \<noteq> None"
proof (induction re m arbitrary: t rule: matches.induct)
  case (1 w)
  then show ?case by simp
next
  case (2 k r)
  then show ?case by simp
next
  case (3 k r c w)
  then show ?case by auto
next
  case (4 k r)
  then have "match_here r ([] @ t) \<noteq> None" by simp
  then show ?case by (cases t) (auto split: option.splits)
next
  case (5 k r c w)
  from "5.prems" have "matches r (c # w) \<or> (in_class k c \<and> matches (Star k # r) w)" by simp
  then show ?case
  proof
    assume "matches r (c # w)"
    then have "match_here r ((c # w) @ t) \<noteq> None" by (rule "5.IH"(1))
    then show ?thesis by (auto split: option.splits)
  next
    assume h: "in_class k c \<and> matches (Star k # r) w"
    then have "match_here (Star k # r) (w @ t) \<noteq> None" by (intro "5.IH"(2)) simp
    with h show ?thesis by (auto split: option.splits)
  qed
next
  case (6 k r)
  then have "match_here r ([] @ t) \<noteq> None" by simp
  then show ?case by (cases t) (auto split: option.splits)
next
  case (7 k r c w)
  from "7.prems" have "matches r (c # w) \<or> (in_class k c \<and> matches (LazyStar k # r) w)" by simp
  then show ?case
  proof
    assume "matches r (c # w)"
    then have "match_here r ((c # w) @ t) \<noteq> None" by (rule "7.IH"(1))
    then show ?thesis by (auto split: option.splits)
  next
    assume h: "in_class k c \<and> matches (LazyStar k # r) w"
    then have "match_here (LazyStar k # r) (w @ t) \<noteq> None" by (intro "7.IH"(2)) simp
    with h show ?thesis by (auto split: option.splits)
  qed
qed

lemma leftmost_Cons:
  assumes "match_here re (c # s) = None" and "leftmost re s n"
  shows "leftmost re (c # s) (Suc n)"
  unfolding leftmost_def
proof (intro allI impI)
  fix pre m post
  assume h: "c # s = pre @ m @ post \<and> matches re m"
  show "Suc n \<le> length pre"
  proof (cases pre)
    case Nil
    with h have "c # s = m @ post" "matches re m" by simp_all
    with match_here_complete [of re m post] assms(1) show ?thesis by simp
  next
    case (Cons d pre0)
    with h have "s = pre0 @ m @ post \<and> matches re m" by simp
    with assms(2) have "n \<le> length pre0" unfolding leftmost_def by blast
    with Cons show ?thesis by simp
  qed
qed

lemma FindString_found:
  assumes "s = pre @ m @ post" and "matches re m"
  shows "matches re (FindString re s) \<and>
         (\<exists>pre' post'. s = pre' @ FindString re s @ post' \<and> leftmost re s (length pre'))"
  using assms
proof (induction s arbitrary: pre)
  case Nil
  then have "m = []" by simp
  with Nil have "match_here re ([] @ []) \<noteq> None" by (intro match_here_complete) simp
  then obtain m' where m': "match_here re [] = Some m'" by auto
  from match_here_sound [OF m'] have "matches re (FindString re [])" "FindString re [] = []"
    using m' by auto
  moreover have "leftmost re [] (length ([] :: string))" by (simp add: leftmost_def)
  ultimately show ?case by (metis append_Nil)
next
  case (Cons c s)
  show ?case
  proof (cases "match_here re (c # s)")
    case (Some m')
    have F: "FindString re (c # s) = m'" using Some by simp
    from match_here_sound [OF Some] obtain t where "matches re m'" "c # s = m' @ t" by blast
    then have "matches re (FindString re (c # s))"
      and "c # s = [] @ FindString re (c # s) @ t"
      unfolding F by simp_all
    moreover have "leftmost re (c # s) (length ([] :: string))" by (simp add: leftmost_def)
    ultimately show ?thesis by blast
  next
    case None
    have "pre \<noteq> []"
    proof
      assume "pre = []"
      with Cons.prems have "c # s = m @ post" by simp
      with match_here_complete [OF Cons.prems(2), of post] None show False by simp
    qed
    then obtain pre0 where pre: "pre = c # pre0" and s: "s = pre0 @ m @ post"
      using Cons.prems(1) by (cases pre) auto
    from Cons.IH [OF s Cons.prems(2)] obtain pre' post'
      where ih: "matches re (FindString re s)" "s = pre' @ FindString re s @ post'"
        "leftmost re s (length pre')"
      by blast
    then have "matches re (FindString re (c # s))"
      and "c # s = (c # pre') @ FindString re (c # s) @ post'"
      using None by simp_all
    moreover have "leftmost re (c # s) (length (c # pre'))"
      using leftmost_Cons [OF None ih(3)] by simp
    ultimately show ?thesis by blast
  qed
qed

lemma FindString_none:
  assumes "\<not> (\<exists>pre m post. s = pre @ m @ post \<and> matches re m)"
  shows "FindString re s = []"
  using assms
proof (induction s)
  case Nil
  then show ?case
    by (auto split: option.splits dest!: match_here_sound)
next
  case (Cons c s)
  have "match_here re (c # s) = None"
  proof (cases "match_here re (c # s)")
    case (Some m')
    from match_here_sound [OF Some] obtain t where "matches re m'" "c # s = [] @ m' @ t" by auto
    with Cons.prems show ?thesis by blast
  qed simp
  moreover have "\<not> (\<exists>pre m post. s = pre @ m @ post \<and> matches re m)"
  proof
    assume "\<exists>pre m post. s = pre @ m @ post \<and> matches re m"
    then obtain pre m post where "s = pre @ m @ post" "matches re m" by blast
    then have "c # s = (c # pre) @ m @ post \<and> matches re m" by simp
    with Cons.prems show False by blast
  qed
  ultimately show ?case using Cons.IH by simp
qed

lemma matches_pattern_nonempty: "matches pattern m \<Longrightarrow> m \<noteq> []"
  by (auto simp: pattern_def)

text \<open>
  A method's name is shortened to receiver and method; what follows the method name, as in
  the name of a closure, is dropped; a plain function's name has no match.
\<close>

lemma FindString_examples:
  "FindString pattern ''main.(*T).Method'' = ''(*T).Method''"
  "FindString pattern ''main.(*T).Method.func1'' = ''(*T).Method''"
  "FindString pattern ''main.main'' = []"
  by (simp_all add: pattern_def is_word_char_def)

section \<open>The logging methods: lemmas\<close>

text \<open>With fields in their ranges the timestamp has the 20 characters of the layout.\<close>

lemma length_dec: "0 < w \<Longrightarrow> n < 10 ^ w \<Longrightarrow> length (dec n) \<le> w"
proof (induction n arbitrary: w rule: dec.induct)
  case (1 n)
  show ?case
  proof (cases "n < 10")
    case True
    with "1.prems" show ?thesis by (simp add: Suc_leI)
  next
    case False
    with "1.prems" obtain v where w: "w = Suc v" by (cases w) auto
    with False "1.prems" have "0 < v" by (cases v) auto
    moreover from w "1.prems" have "n div 10 < 10 ^ v"
      by (simp add: less_mult_imp_div_less mult.commute)
    ultimately have "length (dec (n div 10)) \<le> v" using "1.IH" False by simp
    with False w show ?thesis by (subst dec.simps) simp
  qed
qed

lemma length_zero_pad: "0 < w \<Longrightarrow> n < 10 ^ w \<Longrightarrow> length (zero_pad w n) = w"
  using length_dec [of w n] by (simp add: zero_pad_def del: dec.simps)

lemma length_Format_RFC3339:
  assumes "year t < 10000" "month t < 100" "day t < 100"
    "hour t < 100" "minute t < 100" "second t < 100"
  shows "length (Format_RFC3339 t) = 20"
  using assms by (simp add: Format_RFC3339_def length_zero_pad del: dec.simps)

lemma enter_simps:
  "stack (enter f e) = Internal f # stack e"
  "FuncForPC (enter f e) = FuncForPC e"
  "Now_UTC (enter f e) = Now_UTC e"
  "Sprint (enter f e) = Sprint e"
  "Sprintf (enter f e) = Sprintf e"
  by (simp_all add: enter_def)

text \<open>
  Three frames above \<^verbatim>\<open>caller\<close>'s own (\<^verbatim>\<open>caller\<close>, \<^verbatim>\<open>log\<close>, the public method)
  is the frame of the function that called the public method.
\<close>

lemma caller_depth: "caller (enter ''log'' (enter m e)) = resolve e"
  by (cases "stack e")
     (simp_all add: caller_def resolve_def runtime_Caller_def enter_simps Let_def
        split: option.splits)

lemma timestamp_enter: "timestamp (enter f e) = Format_RFC3339 (Now_UTC e)"
  by (simp add: timestamp_def enter_simps)

lemma emits_Write: "emits st (Write (writer (self st)) s st) [s]"
  by (simp add: emits_def Write_def)

lemma log_entry:
  "log label s (enter m e) st =
     Write (writer (self st)) (entry e (self st) (pad_left 5 label) s) st"
  by (simp add: log_def Let_def caller_depth timestamp_enter enter_simps entry_def NoColor_def)

lemma log_emits:
  "emits st (log label s (enter m e) st) [entry e (self st) (pad_left 5 label) s]"
  by (simp add: log_entry emits_Write)

lemma pad_labels:
  "pad_left 5 ''FATAL'' = ''FATAL''"
  "pad_left 5 ''ERROR'' = ''ERROR''"
  "pad_left 5 ''WARN'' = '' WARN''"
  "pad_left 5 ''INFO'' = '' INFO''"
  "pad_left 5 ''DEBUG'' = ''DEBUG''"
  by (simp_all add: pad_left_def)



lemma entry_split:
  "\<exists>rest. entry e lg field msg =
     ''['' @ Format_RFC3339 (Now_UTC e) @ ''] ['' @ field @ ''] ['' @ rest"
  by (cases "tag lg = []") (simp_all add: entry_def)

lemma unchanged_logger_refl: "unchanged_logger st st"
  unfolding unchanged_logger_def by (auto intro: exI [of _ "[]"])

lemma unchanged_logger_Write: "unchanged_logger st (Write (writer (self st)) s st)"
  unfolding unchanged_logger_def Write_def by (auto intro: exI [of _ "[s]"])

lemma unchanged_logger_log: "unchanged_logger st (log label s e st)"
  by (simp add: log_def Let_def unchanged_logger_Write)

subsection \<open>The concrete call, evaluated\<close>

lemma resolve_example: "resolve example_env = ''(*Server).Run''"
  by (simp add: resolve_def example_env_def pattern_def is_word_char_def)

lemma timestamp_example: "Format_RFC3339 (Now_UTC example_env) = ''2024-01-02T15:04:05Z''"
  by (simp add: example_env_def Format_RFC3339_def zero_pad_def digit_def)

lemma entry_example_tagged:
  "entry example_env (self (example_state ''a'' l)) field msg =
     ''['' @ ''2024-01-02T15:04:05Z'' @ ''] ['' @ field @ ''] ['' @
     [CHR 0x1B, CHR ''['', CHR ''3'', CHR ''6'', CHR ''m'', CHR ''a'',
      CHR 0x1B, CHR ''['', CHR ''0'', CHR ''m''] @
     ''] [(*Server).Run] '' @ msg @ [CHR 0x0A]"
  by (simp add: entry_def resolve_example timestamp_example example_state_def Cyan_def)

lemma entry_example_untagged:
  "entry example_env (self (example_state [] l)) field msg =
     ''['' @ ''2024-01-02T15:04:05Z'' @ ''] ['' @ field @ ''] [(*Server).Run] '' @ msg @
     [CHR 0x0A]"
  by (simp add: entry_def resolve_example timestamp_example example_state_def)

section \<open>Properties of the logger\<close>

subsection \<open>Severity filter\<close>



subsection \<open>Line format\<close>

text \<open>
  C2. Every logging call that is not suppressed appends exactly one entry to the logger's
  writer: \<^verbatim>\<open>[<timestamp>] [<LEVEL>] [<coloredTag>] [<caller>] <message>\n\<close> when the tag
  is not empty, and the same without the tag segment when it is. The colored tag is the
  color, the tag and the reset sequence; the timestamp is the UTC time in RFC 3339
  format; the caller is the function that called the public method.
\<close>

theorem line_format:
  "(level (self st) \<le> Debug \<longrightarrow>
      emits st (logger_Debug a e st) [entry e (self st) ''DEBUG'' (Sprint e a)] \<and>
      emits st (logger_Debugf f a e st) [entry e (self st) ''DEBUG'' (Sprintf e f a)]) \<and>
   (level (self st) \<le> Info \<longrightarrow>
      emits st (logger_Info a e st) [entry e (self st) '' INFO'' (Sprint e a)] \<and>
      emits st (logger_Infof f a e st) [entry e (self st) '' INFO'' (Sprintf e f a)]) \<and>
   (level (self st) \<le> Warn \<longrightarrow>
      emits st (logger_Warn a e st) [entry e (self st) '' WARN'' (Sprint e a)] \<and>
      emits st (logger_Warnf f a e st) [entry e (self st) '' WARN'' (Sprintf e f a)]) \<and>
   (level (self st) \<le> Error \<longrightarrow>
      emits st (logger_Error a e st) [entry e (self st) ''ERROR'' (Sprint e a)] \<and>
      emits st (logger_Errorf f a e st) [entry e (self st) ''ERROR'' (Sprintf e f a)]) \<and>
   emits st (state_of (logger_Fatal a e st)) [entry e (self st) ''FATAL'' (Sprint e a)] \<and>
   emits st (state_of (logger_Fatalf f a e st)) [entry e (self st) ''FATAL'' (Sprintf e f a)]"
proof -
  have d: "level (self st) \<le> Debug \<longrightarrow>
      emits st (logger_Debug a e st) [entry e (self st) ''DEBUG'' (Sprint e a)] \<and>
      emits st (logger_Debugf f a e st) [entry e (self st) ''DEBUG'' (Sprintf e f a)]"
    by (simp add: log_emits [of st "''DEBUG''", unfolded pad_labels]
        logger_Debug_def logger_Debugf_def format_def formatf_def)
  have i: "level (self st) \<le> Info \<longrightarrow>
      emits st (logger_Info a e st) [entry e (self st) '' INFO'' (Sprint e a)] \<and>
      emits st (logger_Infof f a e st) [entry e (self st) '' INFO'' (Sprintf e f a)]"
    by (simp add: log_emits [of st "''INFO''", unfolded pad_labels]
        logger_Info_def logger_Infof_def format_def formatf_def)
  have w: "level (self st) \<le> Warn \<longrightarrow>
      emits st (logger_Warn a e st) [entry e (self st) '' WARN'' (Sprint e a)] \<and>
      emits st (logger_Warnf f a e st) [entry e (self st) '' WARN'' (Sprintf e f a)]"
    by (simp add: log_emits [of st "''WARN''", unfolded pad_labels]
        logger_Warn_def logger_Warnf_def format_def formatf_def)
  have r: "level (self st) \<le> Error \<longrightarrow>
      emits st (logger_Error a e st) [entry e (self st) ''ERROR'' (Sprint e a)] \<and>
      emits st (logger_Errorf f a e st) [entry e (self st) ''ERROR'' (Sprintf e f a)]"
    by (simp add: log_emits [of st "''ERROR''", unfolded pad_labels]
        logger_Error_def logger_Errorf_def format_def formatf_def)
  have x: "emits st (state_of (logger_Fatal a e st))
      [entry e (self st) ''FATAL'' (Sprint e a)]"
    by (simp add: log_emits [of st "''FATAL''", unfolded pad_labels]
        logger_Fatal_def os_Exit_def format_def)
  have y: "emits st (state_of (logger_Fatalf f a e st))
      [entry e (self st) ''FATAL'' (Sprintf e f a)]"
    by (simp add: log_emits [of st "''FATAL''", unfolded pad_labels]
        logger_Fatalf_def os_Exit_def formatf_def)
  from d i w r x y show ?thesis by blast
qed

theorem line_format_witness:
  "level (self (example_state ''a'' Info)) \<le> Info \<and>
   written (logger_Info [''started'', '' ok''] example_env (example_state ''a'' Info)) Stdout =
     [''[2024-01-02T15:04:05Z] [ INFO] ['' @
      [CHR 0x1B, CHR ''['', CHR ''3'', CHR ''6'', CHR ''m'', CHR ''a'',
       CHR 0x1B, CHR ''['', CHR ''0'', CHR ''m''] @
      ''] [(*Server).Run] started ok'' @ [CHR 0x0A]] \<and>
   level (self (example_state [] Info)) \<le> Error \<and>
   written (logger_Errorf ''disk full'' [] example_env (example_state [] Info)) Stdout =
     [''[2024-01-02T15:04:05Z] [ERROR] [(*Server).Run] disk full'' @ [CHR 0x0A]]"
proof -
  have l1: "level (self (example_state ''a'' Info)) \<le> Info"
    by (simp add: example_state_def)
  have l2: "level (self (example_state [] Info)) \<le> Error"
    by (simp add: example_state_def Info_def Error_def)
  have s1: "Sprint example_env [''started'', '' ok''] = ''started ok''"
    by (simp add: example_env_def)
  have s2: "Sprintf example_env ''disk full'' [] = ''disk full''"
    by (simp add: example_env_def)
  have w0: "written (example_state tg l) Stdout = []" "writer (self (example_state tg l)) = Stdout"
    for tg l by (simp_all add: example_state_def)
  from line_format [of "example_state ''a'' Info" "[''started'', '' ok'']" example_env] l1
  have "emits (example_state ''a'' Info)
          (logger_Info [''started'', '' ok''] example_env (example_state ''a'' Info))
          [entry example_env (self (example_state ''a'' Info)) '' INFO'' ''started ok'']"
    by (simp add: s1)
  then have 1: "written (logger_Info [''started'', '' ok''] example_env (example_state ''a'' Info)) Stdout =
      [entry example_env (self (example_state ''a'' Info)) '' INFO'' ''started ok'']"
    by (simp add: emits_def w0)
  from line_format [of "example_state [] Info" "[]" example_env "''disk full''"] l2
  have "emits (example_state [] Info)
          (logger_Errorf ''disk full'' [] example_env (example_state [] Info))
          [entry example_env (self (example_state [] Info)) ''ERROR'' ''disk full'']"
    by (simp add: s2)
  then have 2: "written (logger_Errorf ''disk full'' [] example_env (example_state [] Info)) Stdout =
      [entry example_env (self (example_state [] Info)) ''ERROR'' ''disk full'']"
    by (simp add: emits_def w0)
  from 1 2 l1 l2 show ?thesis
    by (simp add: entry_example_tagged entry_example_untagged)
qed

subsection \<open>Fatal\<close>

text \<open>
  C3. Whatever the logger's minimum level, Fatal and Fatalf append exactly one entry,
  labelled FATAL, to the logger's writer and then end the process with exit status 1;
  nothing that follows the call in the caller is run.
\<close>

theorem fatal_writes_then_exits:
  "(\<exists>st'. logger_Fatal a e st = Exits 1 st' \<and>
          emits st st' [entry e (self st) ''FATAL'' (Sprint e a)] \<and>
          and_then (logger_Fatal a e st) k = Exits 1 st') \<and>
   (\<exists>st'. logger_Fatalf f a e st = Exits 1 st' \<and>
          emits st st' [entry e (self st) ''FATAL'' (Sprintf e f a)] \<and>
          and_then (logger_Fatalf f a e st) k = Exits 1 st') \<and>
   (1 :: int) \<noteq> 0"
  by (simp add: log_emits [of st "''FATAL''", unfolded pad_labels]
      logger_Fatal_def logger_Fatalf_def os_Exit_def format_def formatf_def)

theorem fatal_writes_then_exits_witness:
  "\<exists>st'. and_then (logger_Fatal [''bye''] example_env (example_state [] 7))
            (\<lambda>st. Returns (Write Stdout ''after'' st)) = Exits 1 st' \<and>
         written st' Stdout = [''[2024-01-02T15:04:05Z] [FATAL] [(*Server).Run] bye'' @ [CHR 0x0A]]"
proof -
  from fatal_writes_then_exits [of "[''bye'']" example_env "example_state [] 7"
      "\<lambda>st. Returns (Write Stdout ''after'' st)"]
  obtain st' where
    k: "and_then (logger_Fatal [''bye''] example_env (example_state [] 7))
          (\<lambda>st. Returns (Write Stdout ''after'' st)) = Exits 1 st'" and
    e: "emits (example_state [] 7) st'
          [entry example_env (self (example_state [] 7)) ''FATAL'' (Sprint example_env [''bye''])]"
    by blast
  have s: "Sprint example_env [''bye''] = ''bye''" by (simp add: example_env_def)
  from e have "written st' Stdout =
      [entry example_env (self (example_state [] 7)) ''FATAL'' ''bye'']"
    by (simp add: emits_def example_state_def s)
  with k show ?thesis by (simp add: entry_example_untagged)
qed

subsection \<open>Construction\<close>





subsection \<open>Level field\<close>

text \<open>
  C6. For each of the five labels the methods pass, the level field of the entry written
  is five characters wide: WARN and INFO get one leading space, FATAL, ERROR and DEBUG
  appear as they are.
\<close>

theorem level_field_width:
  assumes "label \<in> set [''FATAL'', ''ERROR'', ''WARN'', ''INFO'', ''DEBUG'']"
  shows "(\<exists>rest. emits st (log label s (enter m e) st)
            [''['' @ Format_RFC3339 (Now_UTC e) @ ''] ['' @ pad_left 5 label @ ''] ['' @ rest]) \<and>
         length (pad_left 5 label) = 5 \<and>
         pad_left 5 label = (if length label < 5 then CHR '' '' # label else label)"
proof -
  obtain rest where "entry e (self st) (pad_left 5 label) s =
      ''['' @ Format_RFC3339 (Now_UTC e) @ ''] ['' @ pad_left 5 label @ ''] ['' @ rest"
    using entry_split by blast
  with log_emits [of st label s m e]
  have "\<exists>rest. emits st (log label s (enter m e) st)
            [''['' @ Format_RFC3339 (Now_UTC e) @ ''] ['' @ pad_left 5 label @ ''] ['' @ rest]"
    by auto
  moreover from assms have "length (pad_left 5 label) = 5"
    by (auto simp: pad_left_def)
  moreover from assms
  have "pad_left 5 label = (if length label < 5 then CHR '' '' # label else label)"
    by (auto simp: pad_left_def)
  ultimately show ?thesis by blast
qed

theorem level_field_width_witness:
  "''INFO'' \<in> set [''FATAL'', ''ERROR'', ''WARN'', ''INFO'', ''DEBUG''] \<and>
   pad_left 5 ''INFO'' = '' INFO'' \<and>
   ''ERROR'' \<in> set [''FATAL'', ''ERROR'', ''WARN'', ''INFO'', ''DEBUG''] \<and>
   pad_left 5 ''ERROR'' = ''ERROR''"
proof -
  have i: "''INFO'' \<in> set [''FATAL'', ''ERROR'', ''WARN'', ''INFO'', ''DEBUG'']" by simp
  have r: "''ERROR'' \<in> set [''FATAL'', ''ERROR'', ''WARN'', ''INFO'', ''DEBUG'']" by simp
  from level_field_width [OF i, of "example_state ''a'' Info" "''x''" "''Info''" example_env]
  have "pad_left 5 ''INFO'' = '' INFO''" by simp
  moreover
  from level_field_width [OF r, of "example_state ''a'' Info" "''x''" "''Error''" example_env]
  have "pad_left 5 ''ERROR'' = ''ERROR''" by simp
  ultimately show ?thesis using i r by simp
qed

subsection \<open>Caller\<close>

text \<open>
  C7. When \<^verbatim>\<open>runtime.Caller(3)\<close> reports no frame, or \<^verbatim>\<open>runtime.FuncForPC\<close> has no
  function for the program counter, the caller field is the string "unknown caller" and
  the entry is written all the same.
\<close>

theorem caller_unknown:
  assumes "runtime_Caller (enter ''caller'' (enter ''log'' e0)) 3 = None \<or>
           (\<exists>p. runtime_Caller (enter ''caller'' (enter ''log'' e0)) 3 = Some p \<and>
                FuncForPC e0 p = None)"
  shows "caller (enter ''log'' e0) = ''unknown caller'' \<and>
         (\<exists>pre. emits st (log label s e0 st) [pre @ ''[unknown caller] '' @ s @ [CHR 0x0A]])"
proof -
  from assms have c: "caller (enter ''log'' e0) = ''unknown caller''"
    by (auto simp: caller_def enter_simps)
  have "log label s e0 st =
      Write (writer (self st))
        ((if tag (self st) \<noteq> [] then
            ''['' @ timestamp (enter ''log'' e0) @ ''] ['' @ pad_left 5 label @ ''] ['' @
            color (self st) @ tag (self st) @ NoColor @ ''] ''
          else ''['' @ timestamp (enter ''log'' e0) @ ''] ['' @ pad_left 5 label @ ''] '') @
         ''[unknown caller] '' @ s @ [CHR 0x0A]) st"
    by (simp add: log_def Let_def c)
  then have "\<exists>pre. log label s e0 st =
      Write (writer (self st)) (pre @ ''[unknown caller] '' @ s @ [CHR 0x0A]) st"
    by blast
  then have "\<exists>pre. emits st (log label s e0 st) [pre @ ''[unknown caller] '' @ s @ [CHR 0x0A]]"
    using emits_Write by metis
  with c show ?thesis by blast
qed

theorem caller_unknown_witness:
  "runtime_Caller (enter ''caller'' (enter ''log'' (enter ''Info'' (example_env\<lparr>stack := []\<rparr>)))) 3
     = None \<and>
   caller (enter ''log'' (enter ''Info'' (example_env\<lparr>stack := []\<rparr>))) = ''unknown caller'' \<and>
   runtime_Caller
     (enter ''caller'' (enter ''log'' (enter ''Info'' (example_env\<lparr>stack := [External 9]\<rparr>)))) 3
     = Some (External 9) \<and>
   FuncForPC (enter ''Info'' (example_env\<lparr>stack := [External 9]\<rparr>)) (External 9) = None \<and>
   caller (enter ''log'' (enter ''Info'' (example_env\<lparr>stack := [External 9]\<rparr>)))
     = ''unknown caller''"
proof -
  let ?e1 = "enter ''Info'' (example_env\<lparr>stack := []\<rparr>)"
  let ?e2 = "enter ''Info'' (example_env\<lparr>stack := [External 9]\<rparr>)"
  have 1: "runtime_Caller (enter ''caller'' (enter ''log'' ?e1)) 3 = None"
    by (simp add: runtime_Caller_def enter_simps)
  have 2: "runtime_Caller (enter ''caller'' (enter ''log'' ?e2)) 3 = Some (External 9)"
    by (simp add: runtime_Caller_def enter_simps)
  have 3: "FuncForPC ?e2 (External 9) = None"
    by (simp add: enter_simps example_env_def)
  from 1 have h1: "runtime_Caller (enter ''caller'' (enter ''log'' ?e1)) 3 = None \<or>
      (\<exists>p. runtime_Caller (enter ''caller'' (enter ''log'' ?e1)) 3 = Some p \<and>
           FuncForPC ?e1 p = None)" by simp
  from 2 3 have h2: "runtime_Caller (enter ''caller'' (enter ''log'' ?e2)) 3 = None \<or>
      (\<exists>p. runtime_Caller (enter ''caller'' (enter ''log'' ?e2)) 3 = Some p \<and>
           FuncForPC ?e2 p = None)" by simp
  from caller_unknown [OF h1] caller_unknown [OF h2] 1 2 3 show ?thesis by simp
qed

text \<open>
  C8. When the caller's name is resolved: if some part of the name is an instance of the
  pattern, the caller field is the match \<^verbatim>\<open>FindString\<close> returns, which is an instance
  of the pattern, a part of the name, and starts at the leftmost position where an
  instance starts; otherwise the caller field is the whole name.
\<close>

theorem caller_resolved:
  assumes "runtime_Caller (enter ''caller'' e) 3 = Some p" and "FuncForPC e p = Some name"
  shows "if (\<exists>pre m post. name = pre @ m @ post \<and> matches pattern m)
         then caller e = FindString pattern name \<and> matches pattern (caller e) \<and>
              (\<exists>pre post. name = pre @ caller e @ post \<and> leftmost pattern name (length pre))
         else caller e = name"
proof (cases "\<exists>pre m post. name = pre @ m @ post \<and> matches pattern m")
  case True
  then obtain pre m post where d: "name = pre @ m @ post" and m: "matches pattern m" by blast
  from FindString_found [OF d m]
  have f: "matches pattern (FindString pattern name)"
    "\<exists>pre' post'. name = pre' @ FindString pattern name @ post' \<and>
        leftmost pattern name (length pre')"
    by simp_all
  from f(1) have "FindString pattern name \<noteq> []" by (rule matches_pattern_nonempty)
  with assms have c: "caller e = FindString pattern name"
    by (simp add: caller_def Let_def)
  with f have "caller e = FindString pattern name \<and> matches pattern (caller e) \<and>
      (\<exists>pre post. name = pre @ caller e @ post \<and> leftmost pattern name (length pre))"
    by simp
  then show ?thesis unfolding if_P [OF True] .
next
  case False
  then have "FindString pattern name = []" by (rule FindString_none)
  with assms have "caller e = name" by (simp add: caller_def Let_def)
  then show ?thesis unfolding if_not_P [OF False] .
qed

theorem caller_resolved_witness:
  "runtime_Caller (enter ''caller'' (enter ''log'' (enter ''Info'' example_env))) 3
     = Some (External 0) \<and>
   FuncForPC (enter ''log'' (enter ''Info'' example_env)) (External 0)
     = Some ''main.(*Server).Run'' \<and>
   matches pattern ''(*Server).Run'' \<and>
   caller (enter ''log'' (enter ''Info'' example_env)) = ''(*Server).Run'' \<and>
   FuncForPC (enter ''log'' (enter ''Info'' (example_env\<lparr>FuncForPC := \<lambda>p. Some ''main.main''\<rparr>)))
     (External 0) = Some ''main.main'' \<and>
   caller (enter ''log'' (enter ''Info'' (example_env\<lparr>FuncForPC := \<lambda>p. Some ''main.main''\<rparr>)))
     = ''main.main''"
proof -
  let ?e = "enter ''log'' (enter ''Info'' example_env)"
  let ?e' = "enter ''log'' (enter ''Info'' (example_env\<lparr>FuncForPC := \<lambda>p. Some ''main.main''\<rparr>))"
  have 1: "runtime_Caller (enter ''caller'' ?e) 3 = Some (External 0)"
    by (simp add: runtime_Caller_def enter_simps example_env_def)
  have 2: "FuncForPC ?e (External 0) = Some ''main.(*Server).Run''"
    by (simp add: enter_simps example_env_def)
  have 3: "matches pattern ''(*Server).Run''"
    by (simp add: pattern_def is_word_char_def)
  have "''main.(*Server).Run'' = ''main.'' @ ''(*Server).Run'' @ []" by simp
  with 3 have 4: "\<exists>pre m post. ''main.(*Server).Run'' = pre @ m @ post \<and> matches pattern m"
    by blast
  have 5: "FindString pattern ''main.(*Server).Run'' = ''(*Server).Run''"
    by (simp add: pattern_def is_word_char_def)
  from caller_resolved [OF 1 2] 4 have 6: "caller ?e = FindString pattern ''main.(*Server).Run''"
    by simp
  have 7: "runtime_Caller (enter ''caller'' ?e') 3 = Some (External 0)"
    by (simp add: runtime_Caller_def enter_simps example_env_def)
  have 8: "FuncForPC ?e' (External 0) = Some ''main.main''"
    by (simp add: enter_simps)
  have 9: "\<not> (\<exists>pre m post. ''main.main'' = pre @ m @ post \<and> matches pattern m)"
  proof
    assume "\<exists>pre m post. ''main.main'' = pre @ m @ post \<and> matches pattern m"
    then obtain pre m post where "''main.main'' = pre @ m @ post" "matches pattern m" by blast
    then have "matches pattern (FindString pattern ''main.main'')"
      using FindString_found by blast
    then show False by (simp add: FindString_examples pattern_def)
  qed
  from caller_resolved [OF 7 8] 9 have 10: "caller ?e' = ''main.main''"
    by (simp only: if_False)
  from 1 2 3 5 6 8 10 show ?thesis by simp
qed

subsection \<open>Palette index\<close>



subsection \<open>Frame\<close>

text \<open>
  C10. Every logging method, Fatal and Fatalf up to the exit included, leaves the tag,
  the color, the level and the writer of the logger as they were; what the writers have
  received changes only by entries appended to the logger's own writer.
\<close>

theorem logging_preserves_logger:
  "unchanged_logger st (logger_Debug a e st) \<and> unchanged_logger st (logger_Debugf f a e st) \<and>
   unchanged_logger st (logger_Info a e st) \<and> unchanged_logger st (logger_Infof f a e st) \<and>
   unchanged_logger st (logger_Warn a e st) \<and> unchanged_logger st (logger_Warnf f a e st) \<and>
   unchanged_logger st (logger_Error a e st) \<and> unchanged_logger st (logger_Errorf f a e st) \<and>
   unchanged_logger st (state_of (logger_Fatal a e st)) \<and>
   unchanged_logger st (state_of (logger_Fatalf f a e st)) \<and>
   unchanged_logger st (log label s e st)"
proof -
  have "unchanged_logger st (logger_Debug a e st)" "unchanged_logger st (logger_Debugf f a e st)"
    by (simp_all add: logger_Debug_def logger_Debugf_def unchanged_logger_log unchanged_logger_refl)
  moreover
  have "unchanged_logger st (logger_Info a e st)" "unchanged_logger st (logger_Infof f a e st)"
    by (simp_all add: logger_Info_def logger_Infof_def unchanged_logger_log unchanged_logger_refl)
  moreover
  have "unchanged_logger st (logger_Warn a e st)" "unchanged_logger st (logger_Warnf f a e st)"
    by (simp_all add: logger_Warn_def logger_Warnf_def unchanged_logger_log unchanged_logger_refl)
  moreover
  have "unchanged_logger st (logger_Error a e st)" "unchanged_logger st (logger_Errorf f a e st)"
    by (simp_all add: logger_Error_def logger_Errorf_def unchanged_logger_log unchanged_logger_refl)
  moreover
  have "unchanged_logger st (state_of (logger_Fatal a e st))"
    "unchanged_logger st (state_of (logger_Fatalf f a e st))"
    by (simp_all add: logger_Fatal_def logger_Fatalf_def os_Exit_def unchanged_logger_log)
  moreover have "unchanged_logger st (log label s e st)" by (rule unchanged_logger_log)
  ultimately show ?thesis by blast
qed

theorem logging_preserves_logger_witness:
  "self (logger_Error [''x''] example_env (example_state ''a'' Debug)) =
     \<lparr>tag = ''a'', color = Cyan, level = Debug, writer = Stdout\<rparr> \<and>
   written (logger_Error [''x''] example_env (example_state ''a'' Debug)) (Sink 3) = []"
proof -
  from logging_preserves_logger [of "example_state ''a'' Debug" "[''x'']" example_env]
  have u: "unchanged_logger (example_state ''a'' Debug)
            (logger_Error [''x''] example_env (example_state ''a'' Debug))"
    by blast
  then have "written (logger_Error [''x''] example_env (example_state ''a'' Debug)) (Sink 3) = []"
    unfolding unchanged_logger_def by (auto simp: example_state_def)
  moreover from u have "self (logger_Error [''x''] example_env (example_state ''a'' Debug)) =
      \<lparr>tag = ''a'', color = Cyan, level = Debug, writer = Stdout\<rparr>"
    unfolding unchanged_logger_def by (auto simp: example_state_def)
  ultimately show ?thesis by simp
qed

end
